theory Spec2Isabelle
  imports Main "HOL-Library.Sublist" "HOL-Library.AList"
begin

section \<open>The documentation server: fetch, cache and search\<close>

text \<open>
  A shallow embedding of \<^verbatim>\<open>mcp-server/src/connectx7_mcp/server.py\<close>. Strings are
  character lists. Python values that travel through the JSON cache are values of
  \<open>pyval\<close>; a Python \<^verbatim>\<open>dict\<close> with string keys is an association list with
  distinct keys in insertion order. Every function that touches the file system, the
  clock or the network takes the \<open>world\<close> and returns it together with either the
  exception that escaped or the value returned.
\<close>

subsection \<open>Python values, exceptions and strings\<close>

datatype exn = OSError | JSONDecodeError | KeyError | ValueError | TypeError | AttributeError

datatype pyval =
    PNone
  | PBool bool
  | PNum int
  | PStr string
  | PList "pyval list"
  | PDict "(string \<times> pyval) list"

type_synonym dict = "(string \<times> pyval) list"

text \<open>\<^verbatim>\<open>datetime\<close> values: naive ones (as \<^verbatim>\<open>datetime.now()\<close> returns) and
  timezone-aware ones, both in microseconds. A \<^verbatim>\<open>timedelta\<close> is a number of
  microseconds.\<close>

datatype datetime = Naive int | Aware int

abbreviation nl :: char where
  "nl \<equiv> CHR 0x0A"

text \<open>\<^verbatim>\<open>data[key]\<close>: only a dict can be subscripted with a string.\<close>

fun subscript :: "pyval \<Rightarrow> string \<Rightarrow> exn + pyval" where
  "subscript (PDict d) k = (case map_of d k of None \<Rightarrow> Inl KeyError | Some v \<Rightarrow> Inr v)"
| "subscript _ k = Inl TypeError"

text \<open>Truth value of \<^verbatim>\<open>d.get(key)\<close>.\<close>

fun truthy :: "pyval option \<Rightarrow> bool" where
  "truthy None = False"
| "truthy (Some PNone) = False"
| "truthy (Some (PBool b)) = b"
| "truthy (Some (PNum n)) = (n \<noteq> 0)"
| "truthy (Some (PStr s)) = (s \<noteq> [])"
| "truthy (Some (PList xs)) = (xs \<noteq> [])"
| "truthy (Some (PDict d)) = (d \<noteq> [])"

text \<open>\<^verbatim>\<open>str.lower()\<close> on ASCII text.\<close>

definition char_lower :: "char \<Rightarrow> char" where
  "char_lower c = (let n = (of_char c :: nat) in if 65 \<le> n \<and> n \<le> 90 then char_of (n + 32) else c)"

definition lower :: "string \<Rightarrow> string" where
  "lower s = map char_lower s"

text \<open>\<^verbatim>\<open>s.replace(a, b)\<close> for single characters \<open>a\<close> and \<open>b\<close>.\<close>

definition replace_char :: "char \<Rightarrow> char \<Rightarrow> string \<Rightarrow> string" where
  "replace_char a b s = map (\<lambda>c. if c = a then b else c) s"

text \<open>\<^verbatim>\<open>sep.join(xs)\<close>.\<close>

fun join :: "string \<Rightarrow> string list \<Rightarrow> string" where
  "join sep [] = []"
| "join sep [x] = x"
| "join sep (x # y # ys) = x @ sep @ join sep (y # ys)"

text \<open>\<^verbatim>\<open>s.split(c)\<close> for a single character \<open>c\<close>: the result is never empty.\<close>

fun split_char :: "char \<Rightarrow> string \<Rightarrow> string list" where
  "split_char sep [] = [[]]"
| "split_char sep (c # cs) =
     (if c = sep then [] # split_char sep cs
      else (case split_char sep cs of
              [] \<Rightarrow> [[c]]
            | p # ps \<Rightarrow> (c # p) # ps))"

text \<open>\<^verbatim>\<open>content.split("\n\n")\<close>: the separators are the leftmost non-overlapping
  pairs of newlines.\<close>

fun split_paragraphs :: "string \<Rightarrow> string list" where
  "split_paragraphs [] = [[]]"
| "split_paragraphs [c] = [[c]]"
| "split_paragraphs (c # d # cs) =
     (if c = nl \<and> d = nl then [] # split_paragraphs cs
      else (case split_paragraphs (d # cs) of
              [] \<Rightarrow> [[c]]
            | p # ps \<Rightarrow> (c # p) # ps))"

text \<open>\<^verbatim>\<open>re.sub(r'\n{3,}', '\n\n', content)\<close>: the pattern is greedy, so every match
  is a maximal run of at least three newlines, and it is replaced by two.\<close>

function re_sub_newlines :: "string \<Rightarrow> string" where
  "re_sub_newlines [] = []"
| "re_sub_newlines (c # cs) =
     (if c = nl
      then (let run = takeWhile (\<lambda>x. x = nl) (c # cs);
                rest = dropWhile (\<lambda>x. x = nl) (c # cs)
            in (if 3 \<le> length run then [nl, nl] else run) @ re_sub_newlines rest)
      else c # re_sub_newlines cs)"
  by pat_completeness auto
termination
  by (relation "measure length") (auto simp: less_Suc_eq_le length_dropWhile_le)

text \<open>The lines of a text and the longest run of consecutive empty lines among them:
  the vocabulary of the specification, which speaks of blank lines.\<close>

definition split_lines :: "string \<Rightarrow> string list" where
  "split_lines s = split_char nl s"

fun longest_blank_run :: "nat \<Rightarrow> string list \<Rightarrow> nat" where
  "longest_blank_run cur [] = cur"
| "longest_blank_run cur (l # ls) =
     (if l = [] then longest_blank_run (Suc cur) ls
      else max cur (longest_blank_run 0 ls))"

definition nonblank_lines :: "string \<Rightarrow> string list" where
  "nonblank_lines s = filter (\<lambda>l. l \<noteq> []) (split_lines s)"

subsection \<open>The registry\<close>

record source =
  base :: string
  name :: string
  pages :: "string list"

definition DOC_SOURCES :: "(string \<times> source) list" where
  "DOC_SOURCES =
    [(''connectx7'',
        \<lparr>base = ''https://docs.nvidia.com/networking/display/ConnectX7VPI'',
         name = ''ConnectX-7 User Manual'',
         pages = ['''', ''/Introduction'', ''/Hardware+Installation'', ''/Driver+Installation'',
                  ''/Firmware+Update'', ''/Port+Configuration'', ''/Troubleshooting'',
                  ''/Specifications'', ''/Performance+Tuning'']\<rparr>),
     (''doca'',
        \<lparr>base = ''https://docs.nvidia.com/doca/sdk'',
         name = ''DOCA SDK'',
         pages = ['''', ''/doca-overview/index.html'',
                  ''/doca-installation-guide-for-linux/index.html'',
                  ''/rdma-over-converged-ethernet/index.html'']\<rparr>),
     (''vma'',
        \<lparr>base = ''https://docs.nvidia.com/networking/display/VMAv98'',
         name = ''VMA User Manual'',
         pages = ['''', ''/Introduction'', ''/Installation'', ''/Configuration'',
                  ''/API'', ''/Performance+Tuning'', ''/Troubleshooting'']\<rparr>),
     (''rdma'',
        \<lparr>base = ''https://docs.nvidia.com/networking/display/RDMAAwareProgrammingv17'',
         name = ''RDMA Programming Guide'',
         pages = ['''', ''/RDMA-Aware+Programming+Overview'',
                  ''/RDMA+Verbs+API'', ''/Programming+Examples+Using+IBV+Verbs'']\<rparr>),
     (''mlnx_ofed'',
        \<lparr>base = ''https://docs.nvidia.com/networking/display/MLNXOFEDv24100700'',
         name = ''MLNX_OFED Documentation'',
         pages = ['''', ''/Introduction'', ''/Installation'', ''/Performance+Tuning'']\<rparr>),
     (''mlx5_kernel'',
        \<lparr>base = ''https://www.kernel.org/doc/html/latest/networking/device_drivers/ethernet/mellanox/mlx5'',
         name = ''mlx5 Kernel Driver'',
         pages = [''/index.html'', ''/kconfig.html'', ''/tracepoints.html'', ''/counters.html'']\<rparr>),
     (''dpdk_mlx5'',
        \<lparr>base = ''https://doc.dpdk.org/guides/platform'',
         name = ''DPDK mlx5 Driver'',
         pages = [''/mlx5.html'']\<rparr>)]"

definition CACHE_HOURS :: int where
  "CACHE_HOURS = 24"

text \<open>\<^verbatim>\<open>timedelta(hours=h)\<close> in microseconds.\<close>

definition timedelta_hours :: "int \<Rightarrow> int" where
  "timedelta_hours h = h * 3600 * 1000000"

subsection \<open>The libraries and the world\<close>

text \<open>What BeautifulSoup finds in a page once the chrome tags (nav, header, footer,
  script, style, aside) are removed: the markup of the first of \<^verbatim>\<open>main\<close>,
  \<^verbatim>\<open>article\<close>, \<^verbatim>\<open>class="content"\<close>, \<^verbatim>\<open>id="content"\<close> and
  \<^verbatim>\<open>body\<close> that exists, and \<^verbatim>\<open>soup.title.string\<close> when the page has a title
  element (a string, or \<open>PNone\<close>).\<close>

record soup =
  main_region :: "string option"
  title_string :: "pyval option"

text \<open>The libraries the server calls are parameters of the model: the hash, the JSON
  codec (\<open>None\<close> is \<^verbatim>\<open>JSONDecodeError\<close>), the ISO timestamp codec (\<open>None\<close> is
  \<^verbatim>\<open>ValueError\<close>), the HTTP client (\<open>Inl\<close> carries \<^verbatim>\<open>str(e)\<close> of the exception
  raised by \<^verbatim>\<open>get\<close> or \<^verbatim>\<open>raise_for_status\<close>, \<open>Inr\<close> the text of the response),
  the HTML parser, the markdown converter, \<^verbatim>\<open>str()\<close> of a number, list or dict, the
  home directory, and the clock: the \<open>n\<close>-th call of \<^verbatim>\<open>datetime.now()\<close> returns
  \<open>clock n\<close>.\<close>

record lib =
  md5_hexdigest :: "string \<Rightarrow> string"
  json_loads :: "string \<Rightarrow> pyval option"
  json_dumps :: "pyval \<Rightarrow> string"
  fromisoformat :: "string \<Rightarrow> datetime option"
  isoformat :: "int \<Rightarrow> string"
  http_get :: "string \<Rightarrow> string + string"
  soup_parse :: "string \<Rightarrow> soup"
  markdownify :: "string \<Rightarrow> string"
  py_repr :: "pyval \<Rightarrow> string"
  home_dir :: string
  clock :: "nat \<Rightarrow> int"

text \<open>A path of the file system holds a readable text file, or something whose
  \<^verbatim>\<open>read_text\<close> raises \<^verbatim>\<open>OSError\<close>. Writing is assumed to succeed.\<close>

datatype node = File string | Unreadable

record world =
  files :: "string \<rightharpoonup> node"
  ticks :: nat
  requests :: "string list"

definition datetime_now :: "lib \<Rightarrow> world \<Rightarrow> int \<times> world" where
  "datetime_now L w = (clock L (ticks w), w\<lparr>ticks := Suc (ticks w)\<rparr>)"

definition read_text :: "world \<Rightarrow> string \<Rightarrow> exn + string" where
  "read_text w path = (case files w path of Some (File text) \<Rightarrow> Inr text | _ \<Rightarrow> Inl OSError)"

definition write_text :: "string \<Rightarrow> string \<Rightarrow> world \<Rightarrow> world" where
  "write_text path text w = w\<lparr>files := (files w)(path \<mapsto> File text)\<rparr>"

text \<open>\<^verbatim>\<open>str(v)\<close>, as an f-string formats a value.\<close>

definition py_str :: "lib \<Rightarrow> pyval \<Rightarrow> string" where
  "py_str L v =
     (case v of
        PStr s \<Rightarrow> s
      | PNone \<Rightarrow> ''None''
      | PBool b \<Rightarrow> (if b then ''True'' else ''False'')
      | _ \<Rightarrow> py_repr L v)"

text \<open>\<^verbatim>\<open>datetime.fromisoformat(v)\<close>: a \<^verbatim>\<open>TypeError\<close> unless \<open>v\<close> is a string.\<close>

definition fromisoformat_py :: "lib \<Rightarrow> pyval \<Rightarrow> exn + datetime" where
  "fromisoformat_py L v =
     (case v of
        PStr s \<Rightarrow> (case fromisoformat L s of None \<Rightarrow> Inl ValueError | Some t \<Rightarrow> Inr t)
      | _ \<Rightarrow> Inl TypeError)"

text \<open>\<^verbatim>\<open>a - b\<close> on datetimes: a naive and an aware one cannot be subtracted.\<close>

fun sub_datetime :: "datetime \<Rightarrow> datetime \<Rightarrow> exn + int" where
  "sub_datetime (Naive a) (Naive b) = Inr (a - b)"
| "sub_datetime (Aware a) (Aware b) = Inr (a - b)"
| "sub_datetime _ _ = Inl TypeError"

subsection \<open>The cache\<close>

definition CACHE_DIR :: "lib \<Rightarrow> string" where
  "CACHE_DIR L = home_dir L @ ''/.cache/connectx7-mcp''"

definition cache_path :: "lib \<Rightarrow> string \<Rightarrow> string" where
  "cache_path L url = CACHE_DIR L @ ''/'' @ take 12 (md5_hexdigest L url) @ ''.json''"

text \<open>The body of the \<^verbatim>\<open>try\<close> in \<^verbatim>\<open>cache_valid\<close>. Python evaluates the left
  operand of the subtraction first, so the clock is read before \<^verbatim>\<open>data["ts"]\<close>.\<close>

definition cache_valid_try :: "lib \<Rightarrow> string \<Rightarrow> world \<Rightarrow> (exn + bool) \<times> world" where
  "cache_valid_try L path w =
     (case read_text w path of
        Inl e \<Rightarrow> (Inl e, w)
      | Inr text \<Rightarrow>
         (case json_loads L text of
            None \<Rightarrow> (Inl JSONDecodeError, w)
          | Some data \<Rightarrow>
             (let (now, w1) = datetime_now L w in
              case subscript data ''ts'' of
                Inl e \<Rightarrow> (Inl e, w1)
              | Inr v \<Rightarrow>
                 (case fromisoformat_py L v of
                    Inl e \<Rightarrow> (Inl e, w1)
                  | Inr t \<Rightarrow>
                     (case sub_datetime (Naive now) t of
                        Inl e \<Rightarrow> (Inl e, w1)
                      | Inr age \<Rightarrow> (Inr (age < timedelta_hours CACHE_HOURS), w1))))))"

definition cache_valid :: "lib \<Rightarrow> string \<Rightarrow> world \<Rightarrow> (exn + bool) \<times> world" where
  "cache_valid L path w =
     (if files w path = None then (Inr False, w)
      else (case cache_valid_try L path w of
              (Inl e, w1) \<Rightarrow>
                (if e \<in> {JSONDecodeError, KeyError, ValueError, OSError}
                 then (Inr False, w1) else (Inl e, w1))
            | (Inr b, w1) \<Rightarrow> (Inr b, w1)))"

subsection \<open>The fetcher\<close>

text \<open>Lines 98 to 100 of \<^verbatim>\<open>fetch\<close>: the cached record, marked as such.\<close>

definition fetch_cached :: "lib \<Rightarrow> string \<Rightarrow> world \<Rightarrow> (exn + dict) \<times> world" where
  "fetch_cached L cp w =
     (case read_text w cp of
        Inl e \<Rightarrow> (Inl e, w)
      | Inr text \<Rightarrow>
         (case json_loads L text of
            None \<Rightarrow> (Inl JSONDecodeError, w)
          | Some (PDict d) \<Rightarrow> (Inr (AList.update ''cached'' (PBool True) d), w)
          | Some _ \<Rightarrow> (Inl TypeError, w)))"

text \<open>\<^verbatim>\<open>url.split("/")[-1]\<close>.\<close>

definition last_segment :: "string \<Rightarrow> string" where
  "last_segment url = last (split_char (CHR ''/'') url)"

text \<open>Lines 102 to 124 of \<^verbatim>\<open>fetch\<close>: retrieval, extraction, normalisation and the
  write to the cache.\<close>

definition fetch_remote :: "lib \<Rightarrow> string \<Rightarrow> string \<Rightarrow> world \<Rightarrow> (exn + dict) \<times> world" where
  "fetch_remote L url cp w =
     (let w1 = w\<lparr>requests := requests w @ [url]\<rparr> in
      case http_get L url of
        Inl msg \<Rightarrow> (Inr [(''error'', PStr msg)], w1)
      | Inr html \<Rightarrow>
         (let sp = soup_parse L html in
          case main_region sp of
            None \<Rightarrow> (Inr [(''error'', PStr ''No content found'')], w1)
          | Some main \<Rightarrow>
             (let title = (case title_string sp of
                             Some t \<Rightarrow> t
                           | None \<Rightarrow> PStr (last_segment url));
                  content = re_sub_newlines (markdownify L main);
                  (now, w2) = datetime_now L w1;
                  data = [(''url'', PStr url), (''title'', title),
                          (''content'', PStr content), (''ts'', PStr (isoformat L now))];
                  w3 = write_text cp (json_dumps L (PDict data)) w2
              in (Inr (AList.update ''cached'' (PBool False) data), w3))))"

definition fetch :: "lib \<Rightarrow> string \<Rightarrow> bool \<Rightarrow> world \<Rightarrow> (exn + dict) \<times> world" where
  "fetch L url refresh w =
     (let cp = cache_path L url in
      case (if refresh then (Inr False, w) else cache_valid L cp w) of
        (Inl e, w1) \<Rightarrow> (Inl e, w1)
      | (Inr hit, w1) \<Rightarrow> (if hit then fetch_cached L cp w1 else fetch_remote L url cp w1))"

subsection \<open>The tools\<close>

definition normalize_topic :: "string \<Rightarrow> string" where
  "normalize_topic topic =
     replace_char (CHR '' '') (CHR ''_'') (replace_char (CHR ''-'') (CHR ''_'') (lower topic))"

text \<open>Lines 149 to 153 of \<^verbatim>\<open>fetch_nvidia_docs\<close>: the text returned for the result
  of \<^verbatim>\<open>fetch\<close>.\<close>

definition fetch_result_text :: "lib \<Rightarrow> string \<Rightarrow> dict \<Rightarrow> exn + string" where
  "fetch_result_text L url result =
     (case map_of result ''error'' of
        Some err \<Rightarrow> Inr (''Error fetching '' @ url @ '': '' @ py_str L err)
      | None \<Rightarrow>
         (let status = (if truthy (map_of result ''cached'') then ''cached'' else ''fresh'') in
          case map_of result ''title'' of
            None \<Rightarrow> Inl KeyError
          | Some title \<Rightarrow>
             (case map_of result ''content'' of
                None \<Rightarrow> Inl KeyError
              | Some content \<Rightarrow>
                  Inr (''# '' @ py_str L title @ [nl, nl] @ ''Source: '' @ url
                       @ '' ('' @ status @ '')'' @ [nl, nl] @ py_str L content))))"

definition fetch_nvidia_docs ::
  "lib \<Rightarrow> string \<Rightarrow> string \<Rightarrow> bool \<Rightarrow> world \<Rightarrow> (exn + string) \<times> world" where
  "fetch_nvidia_docs L topic0 page refresh w =
     (let topic = normalize_topic topic0 in
      case map_of DOC_SOURCES topic of
        None \<Rightarrow>
          (Inr (''Unknown topic '' @ [CHR 0x27] @ topic @ [CHR 0x27] @ ''. Available: ''
                @ join '', '' (map fst DOC_SOURCES)), w)
      | Some src \<Rightarrow>
         (let url = base src @ page in
          case fetch L url refresh w of
            (Inl e, w1) \<Rightarrow> (Inl e, w1)
          | (Inr result, w1) \<Rightarrow> (fetch_result_text L url result, w1)))"

record hit =
  h_src :: string
  h_title :: pyval
  h_url :: string
  h_matches :: "string list"

text \<open>The body of the inner loop of \<^verbatim>\<open>search_nvidia_docs\<close>, for one page.\<close>

definition search_page ::
  "lib \<Rightarrow> string \<Rightarrow> source \<Rightarrow> string \<Rightarrow> hit list \<Rightarrow> world \<Rightarrow> (exn + hit list) \<times> world" where
  "search_page L query_lower src page_path results w =
     (let url = base src @ page_path in
      case fetch L url False w of
        (Inl e, w1) \<Rightarrow> (Inl e, w1)
      | (Inr data, w1) \<Rightarrow>
         (if map_of data ''error'' \<noteq> None then (Inr results, w1)
          else (case (case map_of data ''content'' of None \<Rightarrow> PStr [] | Some v \<Rightarrow> v) of
                  PStr content \<Rightarrow>
                    (if sublist query_lower (lower content)
                     then (let paras = filter (\<lambda>p. sublist query_lower (lower p))
                                              (split_paragraphs content)
                           in if paras \<noteq> []
                              then (Inr (results @
                                      [\<lparr>h_src = name src,
                                        h_title = (case map_of data ''title'' of
                                                     None \<Rightarrow> PStr page_path
                                                   | Some t \<Rightarrow> t),
                                        h_url = url,
                                        h_matches = take 2 paras\<rparr>]), w1)
                              else (Inr results, w1))
                     else (Inr results, w1))
                | _ \<Rightarrow> (Inl AttributeError, w1))))"

fun search_pages ::
  "lib \<Rightarrow> string \<Rightarrow> source \<Rightarrow> string list \<Rightarrow> hit list \<Rightarrow> world \<Rightarrow> (exn + hit list) \<times> world" where
  "search_pages L query_lower src [] results w = (Inr results, w)"
| "search_pages L query_lower src (page_path # rest) results w =
     (case search_page L query_lower src page_path results w of
        (Inl e, w1) \<Rightarrow> (Inl e, w1)
      | (Inr results1, w1) \<Rightarrow> search_pages L query_lower src rest results1 w1)"

fun search_topics ::
  "lib \<Rightarrow> string \<Rightarrow> string list \<Rightarrow> hit list \<Rightarrow> world \<Rightarrow> (exn + hit list) \<times> world" where
  "search_topics L query_lower [] results w = (Inr results, w)"
| "search_topics L query_lower (topic # rest) results w =
     (case map_of DOC_SOURCES topic of
        None \<Rightarrow> search_topics L query_lower rest results w
      | Some src \<Rightarrow>
         (case search_pages L query_lower src (pages src) results w of
            (Inl e, w1) \<Rightarrow> (Inl e, w1)
          | (Inr results1, w1) \<Rightarrow> search_topics L query_lower rest results1 w1))"

text \<open>The excerpt shown for one matching paragraph.\<close>

definition truncated :: "string \<Rightarrow> string" where
  "truncated m = (if 500 < length m then take 500 m @ ''...'' else m)"

text \<open>The lines appended to \<^verbatim>\<open>out\<close> for one result.\<close>

definition hit_lines :: "lib \<Rightarrow> hit \<Rightarrow> string list" where
  "hit_lines L r =
     [''## '' @ h_src r @ '' - '' @ py_str L (h_title r), ''URL: '' @ h_url r @ [nl]]
     @ map (\<lambda>m. ''> '' @ truncated m @ [nl]) (h_matches r)"

definition search_format :: "lib \<Rightarrow> string \<Rightarrow> hit list \<Rightarrow> string" where
  "search_format L query results =
     (if results = [] then ''No results found for '' @ [CHR 0x27] @ query @ [CHR 0x27]
      else join [nl]
             ((''# Search Results: '' @ [CHR 0x27] @ query @ [CHR 0x27] @ [nl])
              # concat (map (hit_lines L) (take 10 results))))"

definition search_nvidia_docs ::
  "lib \<Rightarrow> string \<Rightarrow> string list option \<Rightarrow> world \<Rightarrow> (exn + string) \<times> world" where
  "search_nvidia_docs L query topics_opt w =
     (let topics = (case topics_opt of None \<Rightarrow> map fst DOC_SOURCES | Some ts \<Rightarrow> ts) in
      case search_topics L (lower query) topics [] w of
        (Inl e, w1) \<Rightarrow> (Inl e, w1)
      | (Inr results, w1) \<Rightarrow> (Inr (search_format L query results), w1))"


subsection \<open>A test double for the libraries\<close>

text \<open>One concrete instance of the libraries and a few concrete worlds, on which the
  theorems below are applied. One page of the registry can be retrieved; every other
  request fails. The \<open>n\<close>-th reading of the clock is \<open>n\<close> seconds after the epoch.\<close>

definition demo_url :: string where
  "demo_url = ''https://doc.dpdk.org/guides/platform/mlx5.html''"

definition rdma_url :: string where
  "rdma_url = ''https://docs.nvidia.com/networking/display/RDMAAwareProgrammingv17''"

definition demo_html :: string where
  "demo_html = ''<html><head><title>MLX5</title></head><body><main><h1>MLX5</h1><p>The mlx5 driver</p><p>Kernel bypass</p></main></body></html>''"

definition demo_main :: string where
  "demo_main = ''<main><h1>MLX5</h1><p>The mlx5 driver</p><p>Kernel bypass</p></main>''"

definition demo_markdown :: string where
  "demo_markdown = ''# MLX5'' @ [nl, nl, nl, nl] @ ''The mlx5 driver'' @ [nl, nl] @ ''Kernel bypass''"

definition demo_content :: string where
  "demo_content = ''# MLX5'' @ [nl, nl] @ ''The mlx5 driver'' @ [nl, nl] @ ''Kernel bypass''"

definition demo_iso0 :: string where
  "demo_iso0 = ''1970-01-01T00:00:00''"

definition demo_record :: dict where
  "demo_record =
     [(''url'', PStr demo_url), (''title'', PStr ''MLX5''),
      (''content'', PStr demo_content), (''ts'', PStr demo_iso0)]"

definition demo_text :: string where
  \<open>demo_text =
     ''{"url": "https://doc.dpdk.org/guides/platform/mlx5.html", "title": "MLX5", "content": "# MLX5''
     @ [CHR 0x5C, CHR ''n'', CHR 0x5C, CHR ''n''] @ ''The mlx5 driver''
     @ [CHR 0x5C, CHR ''n'', CHR 0x5C, CHR ''n''] @ ''Kernel bypass", "ts": "1970-01-01T00:00:00"}''\<close>

definition ts_only_text :: string where
  \<open>ts_only_text = ''{"ts": "1970-01-01T00:00:00"}''\<close>

definition demo_lib :: lib where
  "demo_lib =
     \<lparr>md5_hexdigest = (\<lambda>u. if u = demo_url then ''3a0062277734e1c1ab98562db0755d4a''
                            else if u = rdma_url then ''9764ed676740365387f57818727f3665''
                            else ''d41d8cd98f00b204e9800998ecf8427e''),
      json_loads = (\<lambda>t. if t = demo_text then Some (PDict demo_record)
                         else if t = ts_only_text then Some (PDict [(''ts'', PStr demo_iso0)])
                         else None),
      json_dumps = (\<lambda>v. if v = PDict demo_record then demo_text else ''null''),
      fromisoformat = (\<lambda>s. if s = demo_iso0 then Some (Naive 0) else None),
      isoformat = (\<lambda>t. if t = 0 then demo_iso0 else ''1970-01-01T00:00:01''),
      http_get = (\<lambda>u. if u = demo_url then Inr demo_html
                       else Inl ''All connection attempts failed''),
      soup_parse = (\<lambda>h. if h = demo_html
                         then \<lparr>main_region = Some demo_main, title_string = Some (PStr ''MLX5'')\<rparr>
                         else \<lparr>main_region = None, title_string = None\<rparr>),
      markdownify = (\<lambda>m. if m = demo_main then demo_markdown else []),
      py_repr = (\<lambda>v. ''?''),
      home_dir = ''/root'',
      clock = (\<lambda>n. int n * 1000000)\<rparr>"

definition empty_world :: world where
  "empty_world = \<lparr>files = Map.empty, ticks = 0, requests = []\<rparr>"

text \<open>The cache holds, for the given URL, the given text.\<close>

definition cached_world :: "string \<Rightarrow> string \<Rightarrow> world" where
  "cached_world url text =
     \<lparr>files = [cache_path demo_lib url \<mapsto> File text], ticks = 0, requests = []\<rparr>"

section \<open>Collapsing runs of newlines\<close>

text \<open>A run of newlines that is not extended on either side is rewritten on its own, a
  text that does not end in a newline is rewritten independently of what follows it,
  and the rewriting keeps every non-empty line.\<close>

lemma re_sub_nl_unfold:
  "re_sub_newlines (nl # cs) =
     (if 3 \<le> length (takeWhile (\<lambda>x. x = nl) (nl # cs)) then [nl, nl]
      else takeWhile (\<lambda>x. x = nl) (nl # cs))
     @ re_sub_newlines (dropWhile (\<lambda>x. x = nl) (nl # cs))"
  by (simp add: Let_def)

lemma re_sub_other_unfold: "c \<noteq> nl \<Longrightarrow> re_sub_newlines (c # cs) = c # re_sub_newlines cs"
  by simp

lemma re_sub_run:
  assumes "0 < k" and "b = [] \<or> hd b \<noteq> nl"
  shows "re_sub_newlines (replicate k nl @ b)
         = replicate (if 3 \<le> k then 2 else k) nl @ re_sub_newlines b"
proof -
  obtain j where k: "k = Suc j" using assms(1) by (cases k) auto
  have tw: "takeWhile (\<lambda>x. x = nl) (replicate k nl @ b) = replicate k nl"
    using assms(2) by (cases b) (auto simp: takeWhile_append)
  have dw: "dropWhile (\<lambda>x. x = nl) (replicate k nl @ b) = b"
    using assms(2) by (cases b) (auto simp: dropWhile_append)
  have "replicate k nl @ b = nl # replicate j nl @ b" by (simp add: k)
  then have "re_sub_newlines (replicate k nl @ b)
        = (if 3 \<le> length (takeWhile (\<lambda>x. x = nl) (replicate k nl @ b)) then [nl, nl]
           else takeWhile (\<lambda>x. x = nl) (replicate k nl @ b))
          @ re_sub_newlines (dropWhile (\<lambda>x. x = nl) (replicate k nl @ b))"
    using re_sub_nl_unfold [of "replicate j nl @ b"] by simp
  then show ?thesis unfolding tw dw
    by (auto simp: numeral_2_eq_2)
qed

lemma re_sub_no_newline: "nl \<notin> set s \<Longrightarrow> re_sub_newlines s = s"
  by (induction s) auto

lemma re_sub_append:
  "a = [] \<or> last a \<noteq> nl \<Longrightarrow> re_sub_newlines (a @ r) = re_sub_newlines a @ re_sub_newlines r"
proof (induction a rule: re_sub_newlines.induct)
  case 1
  then show ?case by simp
next
  case (2 c cs)
  show ?case
  proof (cases "c = nl")
    case False
    with 2 show ?thesis by (cases cs) auto
  next
    case True
    let ?a = "nl # cs"
    let ?P = "\<lambda>x. x = nl"
    from 2(3) True have la: "last ?a \<noteq> nl" by simp
    have "last ?a \<in> set ?a" by (rule last_in_set) simp
    with la have ex: "last ?a \<in> set ?a" "\<not> ?P (last ?a)"
      by blast+
    have tw: "takeWhile ?P (?a @ r) = takeWhile ?P ?a"
      using ex by (rule takeWhile_append1)
    have dw: "dropWhile ?P (?a @ r) = dropWhile ?P ?a @ r"
      using ex by (rule dropWhile_append1)
    have ld: "last (dropWhile ?P ?a) \<noteq> nl"
      using dropWhile_last [of "last ?a" ?a ?P] ex la by simp
    have ih: "re_sub_newlines (dropWhile ?P ?a @ r)
              = re_sub_newlines (dropWhile ?P ?a) @ re_sub_newlines r"
      using 2(1) [OF True refl refl] ld True by simp
    have "re_sub_newlines (?a @ r) = re_sub_newlines (nl # (cs @ r))" by simp
    also have "\<dots> = (if 3 \<le> length (takeWhile ?P (?a @ r)) then [nl, nl]
                      else takeWhile ?P (?a @ r))
                     @ re_sub_newlines (dropWhile ?P (?a @ r))"
      using re_sub_nl_unfold [of "cs @ r"] by simp
    also have "\<dots> = re_sub_newlines ?a @ re_sub_newlines r"
      unfolding tw dw ih re_sub_nl_unfold [of cs] by simp
    finally show ?thesis using True by simp
  qed
qed

lemma re_sub_hd: "s = [] \<or> hd s \<noteq> nl \<Longrightarrow> re_sub_newlines s = [] \<or> hd (re_sub_newlines s) \<noteq> nl"
  by (cases s) auto

lemma dropWhile_nl_hd: "dropWhile (\<lambda>x. x = nl) s = [] \<or> hd (dropWhile (\<lambda>x. x = nl) s) \<noteq> nl"
  using hd_dropWhile [of "\<lambda>x. x = nl" s] by blast

lemma re_sub_idem: "re_sub_newlines (re_sub_newlines s) = re_sub_newlines s"
proof (induction s rule: re_sub_newlines.induct)
  case 1
  then show ?case by simp
next
  case (2 c cs)
  show ?case
  proof (cases "c = nl")
    case False
    with 2 show ?thesis by simp
  next
    case True
    let ?P = "\<lambda>x. x = nl"
    define run where "run = takeWhile ?P (nl # cs)"
    define rest where "rest = dropWhile ?P (nl # cs)"
    define k where "k = (if 3 \<le> length run then 2 else length run)"
    have ih: "re_sub_newlines (re_sub_newlines rest) = re_sub_newlines rest"
      using 2(1) [OF True refl refl] True by (simp add: rest_def)
    have run: "run = replicate (length run) nl"
      unfolding run_def
      by (rule replicate_length_same [symmetric]) (auto dest: set_takeWhileD)
    have pos: "0 < length run" by (simp add: run_def)
    have m: "(if 3 \<le> length run then [nl, nl] else run) = replicate k nl"
      using run by (simp add: k_def numeral_2_eq_2)
    have k: "0 < k" "k < 3"
      using pos by (auto simp: k_def)
    have hd: "re_sub_newlines rest = [] \<or> hd (re_sub_newlines rest) \<noteq> nl"
      unfolding rest_def by (rule re_sub_hd) (rule dropWhile_nl_hd)
    have unf: "re_sub_newlines (nl # cs) = replicate k nl @ re_sub_newlines rest"
      unfolding m [symmetric] run_def rest_def by (rule re_sub_nl_unfold)
    have "re_sub_newlines (replicate k nl @ re_sub_newlines rest)
          = replicate k nl @ re_sub_newlines rest"
      using re_sub_run [OF k(1) hd] k(2) ih by simp
    then show ?thesis using True unf by simp
  qed
qed


lemma split_char_nonempty: "split_char sep s \<noteq> []"
  by (induction s) (auto split: list.splits)

lemma split_char_other:
  "c \<noteq> sep \<Longrightarrow> split_char sep (c # cs) = (c # hd (split_char sep cs)) # tl (split_char sep cs)"
  using split_char_nonempty [of sep cs] by (cases "split_char sep cs") auto

lemma split_char_run: "split_char sep (replicate k sep @ s) = replicate k [] @ split_char sep s"
  by (induction k) auto

lemma filter_split_hd_tl:
  "filter P (split_char sep s) = filter P [hd (split_char sep s)] @ filter P (tl (split_char sep s))"
  using split_char_nonempty [of sep s] by (cases "split_char sep s") auto

lemma re_sub_lines_aux:
  "hd (split_char nl (re_sub_newlines s)) = hd (split_char nl s) \<and>
   filter (\<lambda>l. l \<noteq> []) (tl (split_char nl (re_sub_newlines s)))
     = filter (\<lambda>l. l \<noteq> []) (tl (split_char nl s))"
proof (induction s rule: re_sub_newlines.induct)
  case 1
  then show ?case by simp
next
  case (2 c cs)
  show ?case
  proof (cases "c = nl")
    case False
    then have "re_sub_newlines (c # cs) = c # re_sub_newlines cs" by simp
    then show ?thesis using 2(2) [OF False] False
      by (simp add: split_char_other del: split_char.simps)
  next
    case True
    let ?P = "\<lambda>x. x = nl"
    define run where "run = takeWhile ?P (nl # cs)"
    define rest where "rest = dropWhile ?P (nl # cs)"
    define k where "k = (if 3 \<le> length run then 2 else length run)"
    have ih: "hd (split_char nl (re_sub_newlines rest)) = hd (split_char nl rest)"
      "filter (\<lambda>l. l \<noteq> []) (tl (split_char nl (re_sub_newlines rest)))
        = filter (\<lambda>l. l \<noteq> []) (tl (split_char nl rest))"
      using 2(1) [OF True refl refl] True by (simp_all add: rest_def)
    have run: "run = replicate (length run) nl"
      unfolding run_def
      by (rule replicate_length_same [symmetric]) (auto dest: set_takeWhileD)
    have pos: "0 < length run" by (simp add: run_def)
    have m: "(if 3 \<le> length run then [nl, nl] else run) = replicate k nl"
      using run by (simp add: k_def numeral_2_eq_2)
    have k: "0 < k" using pos by (auto simp: k_def)
    have unf: "re_sub_newlines (nl # cs) = replicate k nl @ re_sub_newlines rest"
      unfolding m [symmetric] run_def rest_def by (rule re_sub_nl_unfold)
    have "nl # cs = run @ rest"
      unfolding run_def rest_def by (rule takeWhile_dropWhile_id [symmetric])
    then have orig: "nl # cs = replicate (length run) nl @ rest" using run by simp
    have all: "filter (\<lambda>l. l \<noteq> []) (split_char nl (re_sub_newlines rest))
               = filter (\<lambda>l. l \<noteq> []) (split_char nl rest)"
      using filter_split_hd_tl [of "\<lambda>l. l \<noteq> []" nl "re_sub_newlines rest"]
            filter_split_hd_tl [of "\<lambda>l. l \<noteq> []" nl rest] ih
      by simp
    obtain k' where k': "k = Suc k'" using k by (cases k) auto
    obtain n' where n': "length run = Suc n'" using pos by (cases "length run") auto
    have "split_char nl (re_sub_newlines (nl # cs))
          = [] # replicate k' [] @ split_char nl (re_sub_newlines rest)"
      unfolding unf split_char_run k' by simp
    moreover have "split_char nl (nl # cs) = [] # replicate n' [] @ split_char nl rest"
      unfolding orig split_char_run n' by simp
    ultimately show ?thesis using all True by simp
  qed
qed

lemma nonblank_lines_re_sub: "nonblank_lines (re_sub_newlines s) = nonblank_lines s"
  unfolding nonblank_lines_def split_lines_def
  using filter_split_hd_tl [of "\<lambda>l. l \<noteq> []" nl "re_sub_newlines s"]
        filter_split_hd_tl [of "\<lambda>l. l \<noteq> []" nl s] re_sub_lines_aux [of s]
  by simp

text \<open>
  C2, as stated, fails: the specification counts blank lines, the pattern counts
  newline characters. The text \<^verbatim>\<open>a\n\n\nb\<close> has two consecutive blank lines, not
  three, and is rewritten all the same.
\<close>

theorem two_blank_lines_collapsed:
  "longest_blank_run 0 (split_lines (''a'' @ [nl, nl, nl] @ ''b'')) = 2
   \<and> re_sub_newlines (''a'' @ [nl, nl, nl] @ ''b'') \<noteq> ''a'' @ [nl, nl, nl] @ ''b''"
  by (simp add: split_lines_def)

text \<open>
  C2, amended: every maximal run of three or more newline characters (two or more
  consecutive blank lines between two lines of text) is replaced by exactly two newline
  characters (one blank line); shorter runs and all other characters are kept as they
  are; the non-blank lines of the text are the same, in the same order; and the
  rewriting is idempotent.
\<close>

theorem re_sub_newlines_collapse:
  "(0 < k \<and> (a = [] \<or> last a \<noteq> nl) \<and> (b = [] \<or> hd b \<noteq> nl) \<longrightarrow>
      re_sub_newlines (a @ replicate k nl @ b)
        = re_sub_newlines a @ replicate (if 3 \<le> k then 2 else k) nl @ re_sub_newlines b)
   \<and> (nl \<notin> set s \<longrightarrow> re_sub_newlines s = s)
   \<and> nonblank_lines (re_sub_newlines s) = nonblank_lines s
   \<and> re_sub_newlines (re_sub_newlines s) = re_sub_newlines s"
  using re_sub_append [of a "replicate k nl @ b"] re_sub_run [of k b]
  by (simp add: re_sub_no_newline nonblank_lines_re_sub re_sub_idem)

theorem re_sub_newlines_collapse_witness:
  "(0::nat) < 4 \<and> last ''ab'' \<noteq> nl \<and> hd ''cd'' \<noteq> nl \<and> nl \<notin> set ''ab''
   \<and> re_sub_newlines (''ab'' @ replicate 4 nl @ ''cd'') = ''ab'' @ [nl, nl] @ ''cd''
   \<and> re_sub_newlines ''ab'' = ''ab''
   \<and> nonblank_lines (re_sub_newlines ''ab'') = nonblank_lines ''ab''
   \<and> re_sub_newlines (re_sub_newlines ''ab'') = re_sub_newlines ''ab''"
  using re_sub_newlines_collapse [of 4 "''ab''" "''cd''" "''ab''"]
  by (simp add: re_sub_no_newline numeral_2_eq_2)

section \<open>The cache and the fetcher\<close>

lemma read_text_Inr: "read_text w path = Inr text \<longleftrightarrow> files w path = Some (File text)"
  by (auto simp: read_text_def split: option.splits node.splits)

lemma cache_valid_fresh:
  assumes "read_text w path = Inr text" and "json_loads L text = Some (PDict d)"
    and "map_of d ''ts'' = Some (PStr s)" and "fromisoformat L s = Some (Naive t)"
  shows "cache_valid L path w
         = (Inr (clock L (ticks w) - t < 24 * 3600 * 1000000), w\<lparr>ticks := Suc (ticks w)\<rparr>)"
proof -
  from assms(1) have ex: "files w path \<noteq> None"
    by (auto simp: read_text_Inr)
  have "cache_valid_try L path w
        = (Inr (clock L (ticks w) - t < 24 * 3600 * 1000000), w\<lparr>ticks := Suc (ticks w)\<rparr>)"
    using assms
    by (simp add: cache_valid_try_def datetime_now_def fromisoformat_py_def
        timedelta_hours_def CACHE_HOURS_def)
  with ex show ?thesis by (auto simp: cache_valid_def)
qed






lemma cache_valid_files: "files (snd (cache_valid L path w)) = files w"
  by (auto simp: cache_valid_def cache_valid_try_def datetime_now_def
      split: sum.splits option.splits prod.splits)


lemma fetch_remote_total: "\<exists>r. fst (fetch_remote L url cp w) = Inr r \<and> map_of r ''cached'' \<noteq> Some (PBool True)"
  by (auto simp: fetch_remote_def datetime_now_def Let_def split: sum.splits option.splits prod.splits)

lemma fetch_remote_requests: "requests (snd (fetch_remote L url cp w)) = requests w @ [url]"
  by (auto simp: fetch_remote_def datetime_now_def write_text_def Let_def split: sum.splits option.splits prod.splits)


lemma fetch_refresh: "fetch L url True w = fetch_remote L url (cache_path L url) w"
  by (simp add: fetch_def)


lemma fetch_remote_http_fail:
  "http_get L url = Inl msg \<Longrightarrow>
   fetch_remote L url cp w = (Inr [(''error'', PStr msg)], w\<lparr>requests := requests w @ [url]\<rparr>)"
  by (simp add: fetch_remote_def)

lemma fetch_remote_no_content:
  "http_get L url = Inr html \<Longrightarrow> main_region (soup_parse L html) = None \<Longrightarrow>
   fetch_remote L url cp w
   = (Inr [(''error'', PStr ''No content found'')], w\<lparr>requests := requests w @ [url]\<rparr>)"
  by (simp add: fetch_remote_def)

lemma fetch_remote_success:
  assumes "http_get L url = Inr html" and "main_region (soup_parse L html) = Some m"
  shows "fetch_remote L url cp w =
     (let data = [(''url'', PStr url),
                  (''title'', case title_string (soup_parse L html) of
                                Some t \<Rightarrow> t | None \<Rightarrow> PStr (last_segment url)),
                  (''content'', PStr (re_sub_newlines (markdownify L m))),
                  (''ts'', PStr (isoformat L (clock L (ticks w))))]
      in (Inr (data @ [(''cached'', PBool False)]),
          w\<lparr>requests := requests w @ [url], ticks := Suc (ticks w),
            files := (files w)(cp \<mapsto> File (json_dumps L (PDict data)))\<rparr>))"
  using assms by (simp add: fetch_remote_def datetime_now_def write_text_def Let_def)

lemma fetch_cached_files: "files (snd (fetch_cached L cp w)) = files w"
  by (auto simp: fetch_cached_def split: sum.splits option.splits pyval.splits)


lemma fetch_cached_flag:
  "fst (fetch_cached L cp w) = Inr r \<Longrightarrow> map_of r ''cached'' = Some (PBool True)"
  by (auto simp: fetch_cached_def update_Some_unfold split: sum.splits option.splits pyval.splits)

lemma fetch_remote_files_error:
  "fst (fetch_remote L url cp w) = Inr r \<Longrightarrow> map_of r ''error'' \<noteq> None \<Longrightarrow>
   files (snd (fetch_remote L url cp w)) = files w"
  by (auto simp: fetch_remote_def datetime_now_def write_text_def Let_def
      split: sum.splits option.splits prod.splits)




text \<open>
  C4: a record whose \<^verbatim>\<open>ts\<close> field parses to the time \<open>fetched_at\<close> is reported
  valid exactly when the clock reading of the check, minus \<open>fetched_at\<close>, is below 24
  hours (in microseconds); the check leaves the files as they are, so the same bytes
  are valid at one time and invalid at a later one.
\<close>

theorem cache_valid_iff_fresh:
  assumes "read_text w path = Inr text" and "json_loads L text = Some (PDict d)"
    and "map_of d ''ts'' = Some (PStr s)" and "fromisoformat L s = Some (Naive fetched_at)"
  shows "fst (cache_valid L path w) = Inr (clock L (ticks w) - fetched_at < 24 * 3600 * 1000000)
         \<and> files (snd (cache_valid L path w)) = files w"
  using cache_valid_fresh [OF assms] by (simp add: cache_valid_files)

theorem cache_valid_iff_fresh_witness:
  "read_text (cached_world demo_url demo_text) (cache_path demo_lib demo_url) = Inr demo_text
   \<and> json_loads demo_lib demo_text = Some (PDict demo_record)
   \<and> map_of demo_record ''ts'' = Some (PStr demo_iso0)
   \<and> fromisoformat demo_lib demo_iso0 = Some (Naive 0)
   \<and> fst (cache_valid demo_lib (cache_path demo_lib demo_url) (cached_world demo_url demo_text)) = Inr True
   \<and> fst (cache_valid demo_lib (cache_path demo_lib demo_url)
            ((cached_world demo_url demo_text)\<lparr>ticks := 86400\<rparr>)) = Inr False"
proof -
  let ?p = "cache_path demo_lib demo_url"
  let ?w = "cached_world demo_url demo_text"
  have h1: "read_text ?w ?p = Inr demo_text"
    by (simp add: read_text_def cached_world_def)
  have h1': "read_text (?w\<lparr>ticks := 86400\<rparr>) ?p = Inr demo_text"
    by (simp add: read_text_def cached_world_def)
  have h2: "json_loads demo_lib demo_text = Some (PDict demo_record)"
    by (simp add: demo_lib_def)
  have h3: "map_of demo_record ''ts'' = Some (PStr demo_iso0)"
    by (simp add: demo_record_def)
  have h4: "fromisoformat demo_lib demo_iso0 = Some (Naive 0)"
    by (simp add: demo_lib_def)
  have c0: "clock demo_lib 0 = 0" "clock demo_lib 86400 = 86400000000" "ticks ?w = 0"
    by (simp_all add: demo_lib_def cached_world_def)
  show ?thesis
    using cache_valid_iff_fresh [OF h1 h2 h3 h4] cache_valid_iff_fresh [OF h1' h2 h3 h4] h1 h2 h3 h4 c0
    by simp
qed





section \<open>Failures, forced refresh and the round trip through the cache\<close>

lemma fetch_files_error:
  assumes "fst (fetch L url refresh w) = Inr r" and "map_of r ''error'' \<noteq> None"
  shows "files (snd (fetch L url refresh w)) = files w"
proof (cases "if refresh then (Inr False, w) else cache_valid L (cache_path L url) w")
  case (Pair res w1)
  have fw1: "files w1 = files w"
    using Pair cache_valid_files [of L "cache_path L url" w] by (auto split: if_splits)
  show ?thesis
  proof (cases res)
    case (Inl e)
    with Pair fw1 show ?thesis by (simp add: fetch_def)
  next
    case (Inr hit)
    show ?thesis
    proof (cases hit)
      case True
      with Pair Inr fw1 show ?thesis by (simp add: fetch_def fetch_cached_files)
    next
      case False
      with Pair Inr have f: "fetch L url refresh w = fetch_remote L url (cache_path L url) w1"
        by (simp add: fetch_def)
      show ?thesis using assms fetch_remote_files_error [of L url "cache_path L url" w1 r] fw1
        unfolding f by simp
    qed
  qed
qed

lemma fetch_files_raise:
  assumes "fst (fetch L url refresh w) = Inl e"
  shows "files (snd (fetch L url refresh w)) = files w"
proof (cases "if refresh then (Inr False, w) else cache_valid L (cache_path L url) w")
  case (Pair res w1)
  have fw1: "files w1 = files w"
    using Pair cache_valid_files [of L "cache_path L url" w] by (auto split: if_splits)
  show ?thesis
  proof (cases res)
    case (Inl e)
    with Pair fw1 show ?thesis by (simp add: fetch_def)
  next
    case (Inr hit)
    show ?thesis
    proof (cases hit)
      case True
      with Pair Inr fw1 show ?thesis by (simp add: fetch_def fetch_cached_files)
    next
      case False
      with Pair Inr have f: "fetch L url refresh w = fetch_remote L url (cache_path L url) w1"
        by (simp add: fetch_def)
      show ?thesis using assms fetch_remote_total [of L url "cache_path L url" w1]
        unfolding f by auto
    qed
  qed
qed

lemma fetch_files_unretrievable:
  assumes "(\<exists>msg. http_get L url = Inl msg)
           \<or> (\<exists>html. http_get L url = Inr html \<and> main_region (soup_parse L html) = None)"
  shows "files (snd (fetch L url refresh w)) = files w"
proof (cases "if refresh then (Inr False, w) else cache_valid L (cache_path L url) w")
  case (Pair res w1)
  have fw1: "files w1 = files w"
    using Pair cache_valid_files [of L "cache_path L url" w] by (auto split: if_splits)
  show ?thesis
  proof (cases res)
    case (Inl e)
    with Pair fw1 show ?thesis by (simp add: fetch_def)
  next
    case (Inr hit)
    show ?thesis
    proof (cases hit)
      case True
      with Pair Inr fw1 show ?thesis by (simp add: fetch_def fetch_cached_files)
    next
      case False
      with Pair Inr have f: "fetch L url refresh w = fetch_remote L url (cache_path L url) w1"
        by (simp add: fetch_def)
      show ?thesis using assms fw1
        unfolding f by (auto simp: fetch_remote_http_fail fetch_remote_no_content)
    qed
  qed
qed



lemma fetch_remote_wrote:
  assumes "fetch_remote L url cp w = (Inr d, w')" and "map_of d ''cached'' = Some (PBool False)"
  shows "\<exists>title content t.
           d = [(''url'', PStr url), (''title'', title), (''content'', PStr content),
                (''ts'', PStr (isoformat L t)), (''cached'', PBool False)]
           \<and> files w' cp
               = Some (File (json_dumps L (PDict [(''url'', PStr url), (''title'', title),
                    (''content'', PStr content), (''ts'', PStr (isoformat L t))])))"
proof (cases "http_get L url")
  case (Inl msg)
  with assms show ?thesis by (auto simp: fetch_remote_http_fail)
next
  case (Inr html)
  show ?thesis
  proof (cases "main_region (soup_parse L html)")
    case None
    with Inr assms show ?thesis by (auto simp: fetch_remote_no_content)
  next
    case (Some m)
    show ?thesis
      using assms unfolding fetch_remote_success [OF Inr Some]
      by (auto simp: Let_def)
  qed
qed

lemma fetch_wrote:
  assumes "fetch L url refresh w = (Inr d, w')" and "map_of d ''cached'' = Some (PBool False)"
  shows "\<exists>title content t.
           d = [(''url'', PStr url), (''title'', title), (''content'', PStr content),
                (''ts'', PStr (isoformat L t)), (''cached'', PBool False)]
           \<and> files w' (cache_path L url)
               = Some (File (json_dumps L (PDict [(''url'', PStr url), (''title'', title),
                    (''content'', PStr content), (''ts'', PStr (isoformat L t))])))"
proof (cases "if refresh then (Inr False, w) else cache_valid L (cache_path L url) w")
  case (Pair res w1)
  show ?thesis
  proof (cases res)
    case (Inl e)
    with Pair assms show ?thesis by (simp add: fetch_def)
  next
    case (Inr hit)
    show ?thesis
    proof (cases hit)
      case True
      with Pair Inr have "fetch L url refresh w = fetch_cached L (cache_path L url) w1"
        by (simp add: fetch_def)
      with assms fetch_cached_flag [of L "cache_path L url" w1 d] show ?thesis by simp
    next
      case False
      with Pair Inr have "fetch L url refresh w = fetch_remote L url (cache_path L url) w1"
        by (simp add: fetch_def)
      with assms show ?thesis using fetch_remote_wrote by simp
    qed
  qed
qed

lemma demo_re_sub: "re_sub_newlines demo_markdown = demo_content"
  by (simp add: demo_markdown_def demo_content_def)

lemma demo_remote:
  assumes "ticks w = 0"
  shows "fetch_remote demo_lib demo_url cp w
   = (Inr (demo_record @ [(''cached'', PBool False)]),
      w\<lparr>requests := requests w @ [demo_url], ticks := Suc 0,
        files := (files w)(cp \<mapsto> File demo_text)\<rparr>)"
proof -
  have h: "http_get demo_lib demo_url = Inr demo_html"
    "main_region (soup_parse demo_lib demo_html) = Some demo_main"
    by (simp_all add: demo_lib_def)
  have t: "title_string (soup_parse demo_lib demo_html) = Some (PStr ''MLX5'')"
    "markdownify demo_lib demo_main = demo_markdown"
    "isoformat demo_lib (clock demo_lib 0) = demo_iso0"
    by (simp_all add: demo_lib_def)
  have j: "json_dumps demo_lib (PDict demo_record) = demo_text"
    by (simp add: demo_lib_def)
  show ?thesis
    unfolding fetch_remote_success [OF h] t demo_re_sub assms
    using j by (simp add: Let_def demo_record_def)
qed

text \<open>
  C9: when the retrieval fails, when the page has no content region, when \<^verbatim>\<open>fetch\<close>
  raises, and whenever its result carries an \<^verbatim>\<open>error\<close> key, the files after the
  call are the files before it: a failed fetch writes nothing, so a cached record,
  expired or not, survives it.
\<close>

theorem failed_fetch_keeps_cache:
  "((\<exists>msg. http_get L url = Inl msg)
     \<or> (\<exists>html. http_get L url = Inr html \<and> main_region (soup_parse L html) = None)
     \<or> (\<exists>e. fst (fetch L url refresh w) = Inl e)
     \<or> (\<exists>r. fst (fetch L url refresh w) = Inr r \<and> map_of r ''error'' \<noteq> None))
   \<longrightarrow> files (snd (fetch L url refresh w)) = files w"
  using fetch_files_unretrievable [of L url refresh w] fetch_files_raise [of L url refresh w]
    fetch_files_error [of L url refresh w]
  by blast

theorem failed_fetch_keeps_cache_witness:
  "http_get demo_lib rdma_url = Inl ''All connection attempts failed''
   \<and> files (snd (fetch demo_lib rdma_url True (cached_world rdma_url ts_only_text)))
       = files (cached_world rdma_url ts_only_text)
   \<and> files (cached_world rdma_url ts_only_text) (cache_path demo_lib rdma_url)
       = Some (File ts_only_text)"
proof -
  have h: "http_get demo_lib rdma_url = Inl ''All connection attempts failed''"
    by (simp add: demo_lib_def demo_url_def rdma_url_def)
  show ?thesis
    using failed_fetch_keeps_cache [of demo_lib rdma_url True "cached_world rdma_url ts_only_text"] h
    by (simp add: cached_world_def)
qed



text \<open>
  C7: with \<^verbatim>\<open>refresh\<close> set, \<^verbatim>\<open>fetch\<close> always sends the request, its result does
  not depend on what the cache holds, and it is never marked as cached; when the
  retrieval succeeds and the page has a content region, the new record is written over
  the cache entry of the URL and returned with \<^verbatim>\<open>cached\<close> false.
\<close>

theorem fetch_refresh_bypasses_cache:
  "requests (snd (fetch L url True w)) = requests w @ [url]
   \<and> fst (fetch L url True (w\<lparr>files := fs\<rparr>)) = fst (fetch L url True w)
   \<and> (\<forall>r. fst (fetch L url True w) = Inr r \<longrightarrow> map_of r ''cached'' \<noteq> Some (PBool True))
   \<and> (http_get L url = Inr html \<and> main_region (soup_parse L html) = Some m \<longrightarrow>
        (let data = [(''url'', PStr url),
                     (''title'', case title_string (soup_parse L html) of
                                   Some t \<Rightarrow> t | None \<Rightarrow> PStr (last_segment url)),
                     (''content'', PStr (re_sub_newlines (markdownify L m))),
                     (''ts'', PStr (isoformat L (clock L (ticks w))))]
         in fst (fetch L url True w) = Inr (data @ [(''cached'', PBool False)])
            \<and> files (snd (fetch L url True w)) (cache_path L url)
                = Some (File (json_dumps L (PDict data)))))"
proof (intro conjI allI impI)
  show "requests (snd (fetch L url True w)) = requests w @ [url]"
    by (simp add: fetch_refresh fetch_remote_requests)
  show "fst (fetch L url True (w\<lparr>files := fs\<rparr>)) = fst (fetch L url True w)"
    by (auto simp: fetch_refresh fetch_remote_def datetime_now_def write_text_def Let_def
        split: sum.splits option.splits)
  show "map_of r ''cached'' \<noteq> Some (PBool True)" if "fst (fetch L url True w) = Inr r" for r
    using that fetch_remote_total [of L url "cache_path L url" w] by (simp add: fetch_refresh)
  assume "http_get L url = Inr html \<and> main_region (soup_parse L html) = Some m"
  then have h: "http_get L url = Inr html" "main_region (soup_parse L html) = Some m" by simp_all
  show "let data = [(''url'', PStr url),
                     (''title'', case title_string (soup_parse L html) of
                                   Some t \<Rightarrow> t | None \<Rightarrow> PStr (last_segment url)),
                     (''content'', PStr (re_sub_newlines (markdownify L m))),
                     (''ts'', PStr (isoformat L (clock L (ticks w))))]
         in fst (fetch L url True w) = Inr (data @ [(''cached'', PBool False)])
            \<and> files (snd (fetch L url True w)) (cache_path L url)
                = Some (File (json_dumps L (PDict data)))"
    unfolding fetch_refresh fetch_remote_success [OF h] by (simp add: Let_def)
qed

theorem fetch_refresh_bypasses_cache_witness:
  "fst (cache_valid demo_lib (cache_path demo_lib demo_url) (cached_world demo_url ts_only_text))
     = Inr True
   \<and> http_get demo_lib demo_url = Inr demo_html
   \<and> main_region (soup_parse demo_lib demo_html) = Some demo_main
   \<and> fst (fetch demo_lib demo_url True (cached_world demo_url ts_only_text))
       = Inr (demo_record @ [(''cached'', PBool False)])
   \<and> files (snd (fetch demo_lib demo_url True (cached_world demo_url ts_only_text)))
        (cache_path demo_lib demo_url) = Some (File demo_text)
   \<and> requests (snd (fetch demo_lib demo_url True (cached_world demo_url ts_only_text)))
       = [demo_url]"
proof -
  let ?w = "cached_world demo_url ts_only_text"
  have v: "fst (cache_valid demo_lib (cache_path demo_lib demo_url) ?w) = Inr True"
    by (simp add: cache_valid_def cache_valid_try_def read_text_def datetime_now_def
        fromisoformat_py_def timedelta_hours_def CACHE_HOURS_def cached_world_def
        demo_lib_def demo_text_def ts_only_text_def demo_iso0_def)
  have h: "http_get demo_lib demo_url = Inr demo_html"
    "main_region (soup_parse demo_lib demo_html) = Some demo_main"
    by (simp_all add: demo_lib_def)
  have t: "title_string (soup_parse demo_lib demo_html) = Some (PStr ''MLX5'')"
    "markdownify demo_lib demo_main = demo_markdown"
    "isoformat demo_lib (clock demo_lib 0) = demo_iso0"
    "json_dumps demo_lib (PDict demo_record) = demo_text"
    by (simp_all add: demo_lib_def)
  have w: "ticks ?w = 0" "requests ?w = []" by (simp_all add: cached_world_def)
  show ?thesis
    using fetch_refresh_bypasses_cache [of demo_lib demo_url ?w "files ?w" demo_html demo_main]
      v h t w demo_re_sub
    by (simp add: Let_def demo_record_def)
qed

text \<open>
  C8: when \<^verbatim>\<open>fetch\<close> has written a record (its result has \<^verbatim>\<open>cached\<close> false) with
  timestamp \<open>fetched_at\<close>, the JSON codec and the ISO codec read back what they wrote,
  and the next clock reading is less than 24 hours after \<open>fetched_at\<close>, then a
  \<^verbatim>\<open>fetch\<close> of the same URL returns the record read from the cache: every field but
  \<^verbatim>\<open>cached\<close>, now true, is as written.
\<close>

theorem cache_round_trip:
  assumes "fetch L url refresh w = (Inr d, w')" and "map_of d ''cached'' = Some (PBool False)"
    and "map_of d ''ts'' = Some (PStr (isoformat L fetched_at))"
    and "json_loads L (json_dumps L (PDict (AList.delete ''cached'' d)))
         = Some (PDict (AList.delete ''cached'' d))"
    and "fromisoformat L (isoformat L fetched_at) = Some (Naive fetched_at)"
    and "clock L (ticks w') - fetched_at < 24 * 3600 * 1000000"
  shows "files w' (cache_path L url) = Some (File (json_dumps L (PDict (AList.delete ''cached'' d))))
         \<and> fst (fetch L url False w') = Inr (AList.update ''cached'' (PBool True) d)
         \<and> (\<forall>k. k \<noteq> ''cached'' \<longrightarrow>
               map_of (AList.update ''cached'' (PBool True) d) k = map_of d k)"
proof -
  obtain title content t where
    d: "d = [(''url'', PStr url), (''title'', title), (''content'', PStr content),
             (''ts'', PStr (isoformat L t)), (''cached'', PBool False)]"
    and f: "files w' (cache_path L url)
            = Some (File (json_dumps L (PDict [(''url'', PStr url), (''title'', title),
                 (''content'', PStr content), (''ts'', PStr (isoformat L t))])))"
    using fetch_wrote [OF assms(1,2)] by blast
  let ?data = "[(''url'', PStr url), (''title'', title), (''content'', PStr content),
                (''ts'', PStr (isoformat L t))]"
  have del: "AList.delete ''cached'' d = ?data"
    by (simp add: d AList.delete_eq)
  have ts: "isoformat L t = isoformat L fetched_at"
    using assms(3) by (simp add: d)
  have rt: "read_text w' (cache_path L url) = Inr (json_dumps L (PDict ?data))"
    using f by (simp add: read_text_def)
  have jl: "json_loads L (json_dumps L (PDict ?data)) = Some (PDict ?data)"
    using assms(4) del by simp
  have mts: "map_of ?data ''ts'' = Some (PStr (isoformat L fetched_at))"
    using ts by simp
  have cv: "cache_valid L (cache_path L url) w'
            = (Inr (clock L (ticks w') - fetched_at < 24 * 3600 * 1000000),
               w'\<lparr>ticks := Suc (ticks w')\<rparr>)"
    by (rule cache_valid_fresh [OF rt jl mts assms(5)])
  have "fetch L url False w' = fetch_cached L (cache_path L url) (w'\<lparr>ticks := Suc (ticks w')\<rparr>)"
    using cv assms(6) by (simp add: fetch_def)
  also have "\<dots> = (Inr (AList.update ''cached'' (PBool True) ?data), w'\<lparr>ticks := Suc (ticks w')\<rparr>)"
    using f jl by (simp add: fetch_cached_def read_text_def)
  finally have r: "fst (fetch L url False w') = Inr (AList.update ''cached'' (PBool True) d)"
    by (simp add: d)
  show ?thesis
    using f r del by (simp add: update_conv')
qed

theorem cache_round_trip_witness:
  "fetch demo_lib demo_url False empty_world
     = (Inr (demo_record @ [(''cached'', PBool False)]),
        \<lparr>files = [cache_path demo_lib demo_url \<mapsto> File demo_text], ticks = 1,
         requests = [demo_url]\<rparr>)
   \<and> fst (fetch demo_lib demo_url False
            \<lparr>files = [cache_path demo_lib demo_url \<mapsto> File demo_text], ticks = 1,
             requests = [demo_url]\<rparr>)
       = Inr (demo_record @ [(''cached'', PBool True)])"
proof -
  let ?w' = "\<lparr>files = [cache_path demo_lib demo_url \<mapsto> File demo_text], ticks = 1,
              requests = [demo_url]\<rparr>"
  let ?d = "demo_record @ [(''cached'', PBool False)]"
  have f: "fetch demo_lib demo_url False empty_world = (Inr ?d, ?w')"
    using demo_remote [of empty_world "cache_path demo_lib demo_url"]
    by (simp add: fetch_def cache_valid_def empty_world_def)
  have h2: "map_of ?d ''cached'' = Some (PBool False)"
    by (simp add: demo_record_def)
  have h3: "map_of ?d ''ts'' = Some (PStr (isoformat demo_lib 0))"
    by (simp add: demo_record_def demo_lib_def)
  have del: "AList.delete ''cached'' ?d = demo_record"
    by (simp add: demo_record_def AList.delete_eq)
  have h4: "json_loads demo_lib (json_dumps demo_lib (PDict (AList.delete ''cached'' ?d)))
            = Some (PDict (AList.delete ''cached'' ?d))"
    unfolding del by (simp add: demo_lib_def)
  have h5: "fromisoformat demo_lib (isoformat demo_lib 0) = Some (Naive 0)"
    by (simp add: demo_lib_def)
  have h6: "clock demo_lib (ticks ?w') - 0 < 24 * 3600 * 1000000"
    by (simp add: demo_lib_def)
  have upd: "AList.update ''cached'' (PBool True) ?d = demo_record @ [(''cached'', PBool True)]"
    by (simp add: demo_record_def)
  show ?thesis
    using cache_round_trip [OF f h2 h3 h4 h5 h6] f upd by simp
qed

section \<open>Topics and search\<close>

lemma char_lower_not_upper: "\<not> (65 \<le> (of_char (char_lower c) :: nat) \<and> (of_char (char_lower c) :: nat) \<le> 90)"
proof (cases "65 \<le> (of_char c :: nat) \<and> (of_char c :: nat) \<le> 90")
  case True
  then have "char_lower c = char_of ((of_char c :: nat) + 32)"
    by (simp add: char_lower_def Let_def)
  moreover have "(of_char (char_of ((of_char c :: nat) + 32)) :: nat) = of_char c + 32"
    using True by (simp add: of_char_of)
  ultimately show ?thesis using True by simp
next
  case False
  then show ?thesis by (auto simp: char_lower_def Let_def)
qed

lemma char_lower_fixed: "\<not> (65 \<le> (of_char c :: nat) \<and> (of_char c :: nat) \<le> 90) \<Longrightarrow> char_lower c = c"
  by (auto simp: char_lower_def Let_def)

lemma char_lower_idem: "char_lower (char_lower c) = char_lower c"
  by (rule char_lower_fixed) (rule char_lower_not_upper)

lemma char_lower_is_sep:
  "char_lower c = CHR ''-'' \<longleftrightarrow> c = CHR ''-''" "char_lower c = CHR '' '' \<longleftrightarrow> c = CHR '' ''"
proof -
  have a: "char_lower c = x \<longleftrightarrow> c = x"
    if "\<not> (65 \<le> (of_char x :: nat) \<and> (of_char x :: nat) \<le> 90)"
      and "\<not> (97 \<le> (of_char x :: nat) \<and> (of_char x :: nat) \<le> 122)" for x
  proof (cases "65 \<le> (of_char c :: nat) \<and> (of_char c :: nat) \<le> 90")
    case True
    then have l: "char_lower c = char_of ((of_char c :: nat) + 32)"
      by (simp add: char_lower_def Let_def)
    have "(of_char (char_of ((of_char c :: nat) + 32)) :: nat) = of_char c + 32"
      using True by (simp add: of_char_of)
    then have "(of_char (char_lower c) :: nat) = of_char c + 32" using l by simp
    then have "char_lower c \<noteq> x" using that(2) True by auto
    moreover have "c \<noteq> x" using that(1) True by auto
    ultimately show ?thesis by simp
  next
    case False
    then show ?thesis by (auto simp: char_lower_def Let_def)
  qed
  show "char_lower c = CHR ''-'' \<longleftrightarrow> c = CHR ''-''" by (rule a) simp_all
  show "char_lower c = CHR '' '' \<longleftrightarrow> c = CHR '' ''" by (rule a) simp_all
qed

lemma normalize_topic_chars:
  "normalize_topic topic
   = map (\<lambda>c. if c = CHR ''-'' \<or> c = CHR '' '' then CHR ''_'' else char_lower c) topic"
  by (induction topic)
     (auto simp: normalize_topic_def lower_def replace_char_def char_lower_is_sep)

lemma normalize_topic_idem: "normalize_topic (normalize_topic topic) = normalize_topic topic"
proof -
  have u: "char_lower (CHR ''_'') = CHR ''_''" by (simp add: char_lower_def)
  show ?thesis
    unfolding normalize_topic_chars [of "normalize_topic topic"]
    unfolding normalize_topic_chars [of topic]
    by (auto simp: char_lower_idem char_lower_is_sep u)
qed

lemma registry_normalized:
  "map_of DOC_SOURCES topic = Some src \<Longrightarrow> normalize_topic topic = topic"
  by (auto simp: DOC_SOURCES_def normalize_topic_def lower_def replace_char_def char_lower_def
      split: if_splits)


lemma search_topics_skip:
  "map_of DOC_SOURCES topic = None \<Longrightarrow>
   search_topics L q (topic # rest) results w = search_topics L q rest results w"
  by simp








text \<open>
  C10: \<^verbatim>\<open>search_nvidia_docs\<close> looks each requested topic up as it is. A topic that
  is not in normal form but whose normal form is registered is not itself a key of the
  registry: the search skips it, with the same result as if it had not been listed,
  whereas \<^verbatim>\<open>fetch_nvidia_docs\<close> resolves the same topic to its source.
\<close>

theorem search_topics_exact_match:
  "map_of DOC_SOURCES (normalize_topic topic) = Some src \<and> topic \<noteq> normalize_topic topic
   \<longrightarrow> map_of DOC_SOURCES topic = None
       \<and> search_topics L q (topic # rest) results w = search_topics L q rest results w
       \<and> search_nvidia_docs L query (Some (topic # rest)) w
           = search_nvidia_docs L query (Some rest) w
       \<and> fetch_nvidia_docs L topic page refresh w
           = (case fetch L (base src @ page) refresh w of
                (Inl e, w1) \<Rightarrow> (Inl e, w1)
              | (Inr result, w1) \<Rightarrow> (fetch_result_text L (base src @ page) result, w1))"
proof (intro impI, elim conjE)
  assume a: "map_of DOC_SOURCES (normalize_topic topic) = Some src" "topic \<noteq> normalize_topic topic"
  have n: "map_of DOC_SOURCES topic = None"
  proof (cases "map_of DOC_SOURCES topic")
    case (Some s)
    then show ?thesis using registry_normalized a(2) by fastforce
  qed simp
  then show "map_of DOC_SOURCES topic = None
       \<and> search_topics L q (topic # rest) results w = search_topics L q rest results w
       \<and> search_nvidia_docs L query (Some (topic # rest)) w
           = search_nvidia_docs L query (Some rest) w
       \<and> fetch_nvidia_docs L topic page refresh w
           = (case fetch L (base src @ page) refresh w of
                (Inl e, w1) \<Rightarrow> (Inl e, w1)
              | (Inr result, w1) \<Rightarrow> (fetch_result_text L (base src @ page) result, w1))"
    using a(1) by (simp add: search_nvidia_docs_def fetch_nvidia_docs_def Let_def)
qed

theorem search_topics_exact_match_witness:
  "map_of DOC_SOURCES (normalize_topic ''RDMA'')
     = Some \<lparr>base = rdma_url, name = ''RDMA Programming Guide'',
             pages = ['''', ''/RDMA-Aware+Programming+Overview'', ''/RDMA+Verbs+API'',
                      ''/Programming+Examples+Using+IBV+Verbs'']\<rparr>
   \<and> ''RDMA'' \<noteq> normalize_topic ''RDMA''
   \<and> map_of DOC_SOURCES ''RDMA'' = None
   \<and> search_nvidia_docs demo_lib ''verbs'' (Some [''RDMA'', ''dpdk_mlx5'']) empty_world
       = search_nvidia_docs demo_lib ''verbs'' (Some [''dpdk_mlx5'']) empty_world
   \<and> search_topics demo_lib ''verbs'' [''RDMA''] [] empty_world = (Inr [], empty_world)
   \<and> requests (snd (fetch_nvidia_docs demo_lib ''RDMA'' '''' False empty_world)) = [rdma_url]"
proof -
  let ?src = "\<lparr>base = rdma_url, name = ''RDMA Programming Guide'',
               pages = ['''', ''/RDMA-Aware+Programming+Overview'', ''/RDMA+Verbs+API'',
                        ''/Programming+Examples+Using+IBV+Verbs'']\<rparr>"
  have n: "normalize_topic ''RDMA'' = ''rdma''"
    by code_simp
  have m1: "map_of DOC_SOURCES (normalize_topic ''RDMA'') = Some ?src"
    unfolding n by (simp add: DOC_SOURCES_def rdma_url_def)
  have ne: "''RDMA'' \<noteq> normalize_topic ''RDMA''" unfolding n by simp
  have h: "http_get demo_lib rdma_url = Inl ''All connection attempts failed''"
    by (simp add: demo_lib_def demo_url_def rdma_url_def)
  have f: "fetch demo_lib rdma_url False empty_world
           = (Inr [(''error'', PStr ''All connection attempts failed'')],
              empty_world\<lparr>requests := [rdma_url]\<rparr>)"
    using fetch_remote_http_fail [OF h, of "cache_path demo_lib rdma_url" empty_world]
    by (simp add: fetch_def cache_valid_def empty_world_def)
  have r: "requests empty_world = []" by (simp add: empty_world_def)
  show ?thesis
    using search_topics_exact_match [of "''RDMA''" ?src demo_lib "''verbs''" "[]" "[]"
        empty_world "''verbs''" "''''" False]
      search_topics_exact_match [of "''RDMA''" ?src demo_lib "''verbs''" "[''dpdk_mlx5'']" "[]"
        empty_world "''verbs''" "''''" False]
      m1 ne f r
    by simp
qed



end
